theory Spec2Isabelle
  imports Main
begin

section \<open>Python values used by the extractor\<close>

text \<open>
  The development embeds \<^verbatim>\<open>src/data_extraction.py\<close> (class \<^verbatim>\<open>DataExtractor\<close>).
  A Python \<^verbatim>\<open>str\<close> is modelled as a \<^typ>\<open>string\<close> whose characters are read as the code
  points U+0000 .. U+00FF. An exception is a value of \<open>py_error\<close>; a method that can raise
  returns \<open>py_error + 'a\<close> with \<open>Inl\<close> for the exception.
\<close>

datatype py_error =
    IndexError
  | ValueError string
  | Exception string

text \<open>
  \<^verbatim>\<open>str.isspace\<close> on one character, restricted to the code points below 256: TAB, LF, VT, FF,
  CR, the separators FS, GS, RS, US, SPACE, NEL (U+0085) and NBSP (U+00A0).
\<close>

definition isspace :: "char \<Rightarrow> bool" where
  "isspace c = (let n = (of_char c :: nat) in
     (9 \<le> n \<and> n \<le> 13) \<or> (28 \<le> n \<and> n \<le> 32) \<or> n = 133 \<or> n = 160)"

text \<open>
  \<^verbatim>\<open>str.isdigit\<close> on one character, restricted to the code points below 256: the decimal
  digits and the superscripts two, three and one.
\<close>

definition isdigit :: "char \<Rightarrow> bool" where
  "isdigit c = (let n = (of_char c :: nat) in
     (48 \<le> n \<and> n \<le> 57) \<or> n = 178 \<or> n = 179 \<or> n = 185)"

text \<open>
  \<^verbatim>\<open>value.split()\<close> without a separator: runs of whitespace separate the tokens, leading and
  trailing whitespace produces no empty token. \<open>split_from cur s\<close> scans \<open>s\<close> with the token
  \<open>cur\<close> under construction.
\<close>

fun split_from :: "string \<Rightarrow> string \<Rightarrow> string list" where
  "split_from cur [] = (if cur = [] then [] else [cur])"
| "split_from cur (c # cs) =
     (if isspace c then (if cur = [] then split_from [] cs else cur # split_from [] cs)
      else split_from (cur @ [c]) cs)"

definition split :: "string \<Rightarrow> string list" where
  "split s = split_from [] s"

text \<open>\<^verbatim>\<open>part.startswith(prefix)\<close>.\<close>

definition startswith :: "string \<Rightarrow> string \<Rightarrow> bool" where
  "startswith s pre = (take (length pre) s = pre)"

section \<open>The normalizer \<^verbatim>\<open>_clean_value\<close>\<close>

text \<open>
  The test of the \<^verbatim>\<open>for part in parts\<close> loop:
  \<^verbatim>\<open>any(char.isdigit() for char in part) or part.startswith('$')\<close>.
\<close>

definition looks_like_value :: "string \<Rightarrow> bool" where
  "looks_like_value part = (list_ex isdigit part \<or> startswith part ''$'')"

text \<open>The \<^verbatim>\<open>for\<close> loop: \<open>Some part\<close> when it returns from inside, \<open>None\<close> when it falls through.\<close>

fun first_value_part :: "string list \<Rightarrow> string option" where
  "first_value_part [] = None"
| "first_value_part (part # parts) =
     (if looks_like_value part then Some part else first_value_part parts)"

text \<open>
  \<^verbatim>\<open>
  def _clean_value(self, value):
      if " " in value:
          parts = value.split()
          for part in parts:
              if any(char.isdigit() for char in part) or part.startswith('$'):
                  return part
          return parts[0]
      return value
  \<close>
  \<^verbatim>\<open>parts[0]\<close> raises \<^verbatim>\<open>IndexError\<close> on the empty list.
\<close>

definition clean_value :: "string \<Rightarrow> py_error + string" where
  "clean_value v =
     (if CHR '' '' \<in> set v then
        (let parts = split v in
         case first_value_part parts of
           Some part \<Rightarrow> Inr part
         | None \<Rightarrow> (case parts of [] \<Rightarrow> Inl IndexError | p0 # _ \<Rightarrow> Inr p0))
      else Inr v)"

text \<open>
  The normalizer as the specification words it (section 4.5), for comparison with
  \<open>clean_value\<close>: on a value containing whitespace, the first token containing a digit or a
  leading currency symbol, else the first token; a value without whitespace unchanged. The
  specification names no result when there is no token at all, which is \<open>None\<close> here. The
  dollar sign is the currency symbol of the catalogue.
\<close>

definition spec_qualifies :: "string \<Rightarrow> bool" where
  "spec_qualifies tok = (list_ex isdigit tok \<or> (tok \<noteq> [] \<and> hd tok = CHR ''$''))"

definition spec_clean :: "string \<Rightarrow> string option" where
  "spec_clean raw =
     (if list_ex isspace raw then
        (case filter spec_qualifies (split raw) of
           tok # _ \<Rightarrow> Some tok
         | [] \<Rightarrow> (case split raw of [] \<Rightarrow> None | tok # _ \<Rightarrow> Some tok))
      else Some raw)"

section \<open>Records and the per-view extraction\<close>

text \<open>
  One element of \<^verbatim>\<open>product_data_list\<close>, the list the page script returns: the script pushes a
  card only when \<^verbatim>\<open>name\<close>, \<^verbatim>\<open>id\<close>, \<^verbatim>\<open>price\<close>, \<^verbatim>\<open>mass_kg\<close> and \<^verbatim>\<open>score\<close> are all set.
\<close>

record product =
  name :: string
  id_field :: string
  price :: string
  mass_kg :: string
  score :: string

text \<open>
  The four assignments \<^verbatim>\<open>product["id"] = self._clean_value(product["id"])\<close> ... in source
  order; the first call that raises ends the sequence.
\<close>

definition clean_fields :: "product \<Rightarrow> py_error + product" where
  "clean_fields p =
     (case clean_value (id_field p) of Inl e \<Rightarrow> Inl e | Inr i \<Rightarrow>
       (case clean_value (price p) of Inl e \<Rightarrow> Inl e | Inr pr \<Rightarrow>
         (case clean_value (mass_kg p) of Inl e \<Rightarrow> Inl e | Inr m \<Rightarrow>
           (case clean_value (score p) of Inl e \<Rightarrow> Inl e | Inr s \<Rightarrow>
              Inr (p\<lparr>id_field := i, price := pr, mass_kg := m, score := s\<rparr>)))))"

text \<open>
  \<^verbatim>\<open>len(self.data) < (self.max_products or float('inf'))\<close>: \<^verbatim>\<open>None\<close> and \<^verbatim>\<open>0\<close> are falsy, so
  both stand for no ceiling.
\<close>

definition under_ceiling :: "int option \<Rightarrow> nat \<Rightarrow> bool" where
  "under_ceiling max_products n =
     (case max_products of
        None \<Rightarrow> True
      | Some m \<Rightarrow> if m = 0 then True else int n < m)"

text \<open>\<^verbatim>\<open>self.max_products and len(self.data) >= self.max_products\<close>.\<close>

definition limit_reached :: "int option \<Rightarrow> nat \<Rightarrow> bool" where
  "limit_reached max_products n =
     (case max_products of
        None \<Rightarrow> False
      | Some m \<Rightarrow> m \<noteq> 0 \<and> m \<le> int n)"

text \<open>
  \<^verbatim>\<open>
  for product in product_data_list:
      if (product["id"] not in extracted_ids and
          len(self.data) < (self.max_products or float('inf'))):
          product["id"] = self._clean_value(product["id"])
          ...
          self.data.append(product)
          extracted_ids.add(product["id"])
  \<close>
  The state is the pair of \<^verbatim>\<open>self.data\<close> and \<^verbatim>\<open>extracted_ids\<close>; the membership test reads the
  id as extracted, the set receives the id as cleaned.
\<close>

fun extract_products_from_current_view ::
  "int option \<Rightarrow> product list \<Rightarrow> product list \<times> string set
     \<Rightarrow> py_error + product list \<times> string set" where
  "extract_products_from_current_view max_products [] (dat, ids) = Inr (dat, ids)"
| "extract_products_from_current_view max_products (p # ps) (dat, ids) =
     (if id_field p \<notin> ids \<and> under_ceiling max_products (length dat) then
        (case clean_fields p of
           Inl e \<Rightarrow> Inl e
         | Inr p' \<Rightarrow>
             extract_products_from_current_view max_products ps
               (dat @ [p'], insert (id_field p') ids))
      else extract_products_from_current_view max_products ps (dat, ids))"

section \<open>The pagination loop of \<^verbatim>\<open>_extract_product_data\<close>\<close>

text \<open>
  What the page shows in one iteration: the list the extraction script returns, and
  \<^verbatim>\<open>document.body.scrollHeight\<close> as measured after the scroll of that iteration.
\<close>

record view =
  products :: "product list"
  scroll_height :: int

text \<open>The local variables of the loop, with \<^verbatim>\<open>self.data\<close>.\<close>

record scroll_state =
  data :: "product list"
  extracted_ids :: "string set"
  last_height :: int
  scroll_attempts :: nat
  no_new_items_count :: nat

definition max_scroll_attempts :: nat where
  "max_scroll_attempts = 1000"

definition max_no_new_items :: nat where
  "max_no_new_items = 3"

text \<open>The \<^verbatim>\<open>while\<close> condition.\<close>

definition loop_condition :: "scroll_state \<Rightarrow> bool" where
  "loop_condition st =
     (scroll_attempts st < max_scroll_attempts \<and> no_new_items_count st < max_no_new_items)"

text \<open>How one execution of the loop body ends.\<close>

datatype flow = Raise py_error | Break scroll_state | Next scroll_state

text \<open>
  The loop body (source lines 442 to 480): the limit check, the extraction of the current
  view, the empty-batch counter, the second limit check, the scroll and the growth check.
\<close>

definition loop_body :: "int option \<Rightarrow> view \<Rightarrow> scroll_state \<Rightarrow> flow" where
  "loop_body max_products v st =
     (if limit_reached max_products (length (data st)) then Break st
      else
        (case extract_products_from_current_view max_products (products v)
                (data st, extracted_ids st) of
           Inl e \<Rightarrow> Raise e
         | Inr (dat, ids) \<Rightarrow>
             (let new_items_in_batch = int (length dat) - int (length (data st));
                  st1 = st\<lparr>data := dat, extracted_ids := ids,
                           no_new_items_count :=
                             (if new_items_in_batch = 0 then no_new_items_count st + 1 else 0)\<rparr>
              in if limit_reached max_products (length dat) then Break st1
                 else
                   (let new_height = scroll_height v
                    in if new_height = last_height st1
                       then Next (st1\<lparr>scroll_attempts := scroll_attempts st1 + 1\<rparr>)
                       else Next (st1\<lparr>scroll_attempts := 0, last_height := new_height\<rparr>)))))"

text \<open>How the loop was left: by one of its two \<^verbatim>\<open>break\<close>s or by its condition.\<close>

datatype loop_exit = LimitBreak | ConditionFalse

text \<open>
  The \<^verbatim>\<open>while\<close> loop over the sequence of views the page goes through, \<open>views 0\<close> being the
  view of the next iteration. The first argument bounds the number of executions of the
  body; \<open>None\<close> means that the loop is still running when the bound is used up.
\<close>

fun scroll_loop ::
  "nat \<Rightarrow> int option \<Rightarrow> (nat \<Rightarrow> view) \<Rightarrow> scroll_state
     \<Rightarrow> (py_error + loop_exit \<times> scroll_state) option" where
  "scroll_loop 0 max_products views st =
     (if loop_condition st then None else Some (Inr (ConditionFalse, st)))"
| "scroll_loop (Suc n) max_products views st =
     (if loop_condition st then
        (case loop_body max_products (views 0) st of
           Raise e \<Rightarrow> Some (Inl e)
         | Break st' \<Rightarrow> Some (Inr (LimitBreak, st'))
         | Next st' \<Rightarrow> scroll_loop n max_products (\<lambda>i. views (Suc i)) st')
      else Some (Inr (ConditionFalse, st)))"

text \<open>
  The terminal states of the specification (section 4.4), read off the way the loop was
  left and the two tests printed after it (source lines 483 to 486).
\<close>

datatype terminal = LimitReached | Converged | MaxAttemptsExceeded

definition terminal_states :: "loop_exit \<times> scroll_state \<Rightarrow> terminal set" where
  "terminal_states r =
     (if fst r = LimitBreak then {LimitReached} else {}) \<union>
     (if max_no_new_items \<le> no_new_items_count (snd r) then {Converged} else {}) \<union>
     (if max_scroll_attempts \<le> scroll_attempts (snd r) then {MaxAttemptsExceeded} else {})"

text \<open>
  What the browser shows to one run: whether the login indicators are visible on arrival
  and after the login form was submitted, whether the product grid becomes visible within
  its timeout, the scroll height before the loop, and the views of the loop.
\<close>

record page =
  login_required :: bool
  login_rejected :: bool
  grid_visible :: bool
  initial_height :: int
  views :: "nat \<Rightarrow> view"

definition initial_scroll_state :: "product list \<Rightarrow> int \<Rightarrow> scroll_state" where
  "initial_scroll_state dat h =
     \<lparr>data = dat, extracted_ids = {}, last_height = h,
      scroll_attempts = 0, no_new_items_count = 0\<rparr>"

text \<open>
  \<^verbatim>\<open>_extract_product_data\<close>: the \<^verbatim>\<open>TimeoutError\<close> of the wait for the grid is caught and the
  method returns; otherwise the loop runs from the initial counters. The result is the new
  \<^verbatim>\<open>self.data\<close>.
\<close>

definition extract_product_data ::
  "nat \<Rightarrow> int option \<Rightarrow> page \<Rightarrow> product list \<Rightarrow> (py_error + product list) option" where
  "extract_product_data fuel max_products pg dat =
     (if \<not> grid_visible pg then Some (Inr dat)
      else
        (case scroll_loop fuel max_products (views pg)
                (initial_scroll_state dat (initial_height pg)) of
           None \<Rightarrow> None
         | Some (Inl e) \<Rightarrow> Some (Inl e)
         | Some (Inr (ex, st)) \<Rightarrow> Some (Inr (data st))))"

section \<open>The run\<close>

text \<open>
  A credential is \<^verbatim>\<open>None\<close> or a string; \<^verbatim>\<open>not username\<close> holds for \<^verbatim>\<open>None\<close> and for the empty
  string. The configuration is the mapping \<^verbatim>\<open>_load_config\<close> returns (empty when the file is
  missing or malformed), a JSON \<^verbatim>\<open>null\<close> being \<^verbatim>\<open>None\<close>.
\<close>

definition truthy :: "string option \<Rightarrow> bool" where
  "truthy v = (case v of None \<Rightarrow> False | Some s \<Rightarrow> s \<noteq> [])"

text \<open>\<^verbatim>\<open>config.get(key, default)\<close>.\<close>

definition config_get ::
  "(string \<rightharpoonup> string option) \<Rightarrow> string \<Rightarrow> string option \<Rightarrow> string option" where
  "config_get config k dflt = (case config k of None \<Rightarrow> dflt | Some v \<Rightarrow> v)"

text \<open>
  The credentials a run works with, after source lines 40 to 43: when one of the arguments
  is missing, both are read from the configuration, with the arguments as defaults.
\<close>

definition completed_credentials ::
  "(string \<rightharpoonup> string option) \<Rightarrow> string option \<Rightarrow> string option
     \<Rightarrow> string option \<times> string option" where
  "completed_credentials config username password =
     (if \<not> truthy username \<or> \<not> truthy password
      then (config_get config ''username'' username, config_get config ''password'' password)
      else (username, password))"

text \<open>What a run that returns leaves behind.\<close>

record run_result =
  returned :: "product list"
  exported :: "product list"
  session_saved :: bool

text \<open>
  \<^verbatim>\<open>run\<close>, for an extractor whose \<^verbatim>\<open>self.data\<close> is \<open>dat\<close> on entry (the empty list after
  \<^verbatim>\<open>__init__\<close>). The credentials are completed from the configuration, a required login
  without credentials raises \<^verbatim>\<open>ValueError\<close>, a login after which the indicators are still
  visible raises \<^verbatim>\<open>Exception\<close>, then the data is extracted and exported. Every exception is
  re-raised to the caller after the browser is closed. The navigation steps swallow their
  failures and do not touch \<^verbatim>\<open>self.data\<close>; failures of the browser driver itself are outside
  the model.
\<close>

definition run ::
  "nat \<Rightarrow> product list \<Rightarrow> (string \<rightharpoonup> string option) \<Rightarrow> string option \<Rightarrow> string option
     \<Rightarrow> int option \<Rightarrow> page \<Rightarrow> (py_error + run_result) option" where
  "run fuel dat config username password max_products pg =
     (let load = (\<not> truthy username \<or> \<not> truthy password);
          username' = (if load then config_get config ''username'' username else username);
          password' = (if load then config_get config ''password'' password else password)
      in if login_required pg \<and> (\<not> truthy username' \<or> \<not> truthy password')
         then Some (Inl (ValueError ''Login required but credentials not provided''))
         else if login_required pg \<and> login_rejected pg
         then Some (Inl (Exception ''Login failed - still seeing login form''))
         else
           (case extract_product_data fuel max_products pg dat of
              None \<Rightarrow> None
            | Some (Inl e) \<Rightarrow> Some (Inl e)
            | Some (Inr dat') \<Rightarrow>
                Some (Inr \<lparr>returned = dat', exported = dat',
                           session_saved = login_required pg\<rparr>)))"

section \<open>Inputs named in the properties\<close>



text \<open>The card of scenario C of the specification, and the record it is stored as.\<close>

definition scenario_c_card :: product where
  "scenario_c_card =
     \<lparr>name = ''Widget'', id_field = ''42 units'', price = ''$19.99 USD'',
      mass_kg = ''3.2 kg'', score = ''8.7''\<rparr>"

definition scenario_c_record :: product where
  "scenario_c_record =
     \<lparr>name = ''Widget'', id_field = ''42'', price = ''$19.99'',
      mass_kg = ''3.2'', score = ''8.7''\<rparr>"

text \<open>A card whose fields are already normalized.\<close>

definition plain_card :: "string \<Rightarrow> product" where
  "plain_card i =
     \<lparr>name = ''Widget'', id_field = i, price = ''$19.99'', mass_kg = ''3.2'', score = ''8.7''\<rparr>"

text \<open>
  A page without login whose grid shows the same cards in every view and never grows.
\<close>

definition static_page :: "product list \<Rightarrow> page" where
  "static_page cards =
     \<lparr>login_required = False, login_rejected = False, grid_visible = True,
      initial_height = 800,
      views = (\<lambda>i. \<lparr>products = cards, scroll_height = 800\<rparr>)\<rparr>"


text \<open>The string \<^verbatim>\<open>"a\t1"\<close>: whitespace, but no space character.\<close>

definition tab_separated :: string where
  "tab_separated = [CHR ''a'', CHR 0x09, CHR ''1'']"

text \<open>
  A loop state in which the card with id 1 has been stored, and views that show this card
  again while the page grows.
\<close>

definition seen_state :: scroll_state where
  "seen_state =
     \<lparr>data = [plain_card ''1''], extracted_ids = {''1''}, last_height = 800,
      scroll_attempts = 0, no_new_items_count = 0\<rparr>"

definition rising_views :: "nat \<Rightarrow> view" where
  "rising_views i = \<lparr>products = [plain_card ''1''], scroll_height = 900 + int i\<rparr>"



text \<open>
  A page without login that shows the card of scenario C in every view while it grows:
  view \<open>i\<close> has scroll height \<open>900 + i\<close>.
\<close>

definition recurring_card_views :: "nat \<Rightarrow> view" where
  "recurring_card_views i = \<lparr>products = [scenario_c_card], scroll_height = 900 + int i\<rparr>"

definition recurring_card_page :: page where
  "recurring_card_page =
     \<lparr>login_required = False, login_rejected = False, grid_visible = True,
      initial_height = 800, views = recurring_card_views\<rparr>"

text \<open>A configuration that holds both credentials, and a page that asks for the login.\<close>

definition full_config :: "string \<rightharpoonup> string option" where
  "full_config = [''username'' \<mapsto> Some ''user'', ''password'' \<mapsto> Some ''secret'']"

definition login_page_without_grid :: page where
  "login_page_without_grid =
     \<lparr>login_required = True, login_rejected = False, grid_visible = False,
      initial_height = 800, views = (\<lambda>i. \<lparr>products = [], scroll_height = 800\<rparr>)\<rparr>"

section \<open>Lemmas about the normalizer\<close>

text \<open>A token of \<^verbatim>\<open>split\<close> is not empty and holds no whitespace.\<close>

lemma split_from_tokens:
  "\<forall>c\<in>set cur. \<not> isspace c \<Longrightarrow> t \<in> set (split_from cur s)
     \<Longrightarrow> t \<noteq> [] \<and> (\<forall>c\<in>set t. \<not> isspace c)"
proof (induction cur s rule: split_from.induct)
  case (1 cur)
  then show ?case by (simp split: if_splits)
next
  case (2 cur c cs)
  have empty_ok: "\<forall>c\<in>set ([]::string). \<not> isspace c" by simp
  show ?case
  proof (cases "isspace c")
    case True
    note sp = this
    show ?thesis
    proof (cases "cur = []")
      case True
      from "2.prems"(2) sp True have "t \<in> set (split_from [] cs)" by simp
      from "2.IH"(1) [OF sp True empty_ok this] show ?thesis .
    next
      case False
      from "2.prems"(2) sp False have "t = cur \<or> t \<in> set (split_from [] cs)" by simp
      then show ?thesis
      proof
        assume "t = cur"
        with False "2.prems"(1) show ?thesis by simp
      next
        assume "t \<in> set (split_from [] cs)"
        from "2.IH"(2) [OF sp False empty_ok this] show ?thesis .
      qed
    qed
  next
    case False
    from "2.prems"(2) False have mem: "t \<in> set (split_from (cur @ [c]) cs)" by simp
    from "2.prems"(1) False have "\<forall>c\<in>set (cur @ [c]). \<not> isspace c" by simp
    from "2.IH"(3) [OF False this mem] show ?thesis .
  qed
qed

lemma split_tokens: "t \<in> set (split s) \<Longrightarrow> t \<noteq> [] \<and> (\<forall>c\<in>set t. \<not> isspace c)"
  unfolding split_def using split_from_tokens [of "[]" t s] by simp

lemma isspace_space: "isspace (CHR '' '')"
  by (simp add: isspace_def)

lemma token_no_space: "t \<in> set (split s) \<Longrightarrow> CHR '' '' \<notin> set t"
  using split_tokens [of t s] isspace_space by blast

lemma first_value_part_mem: "first_value_part ps = Some t \<Longrightarrow> t \<in> set ps"
  by (induction ps) (simp_all split: if_splits)

lemma clean_value_fixed: "CHR '' '' \<notin> set y \<Longrightarrow> clean_value y = Inr y"
  by (simp add: clean_value_def)

lemma clean_value_in_parts:
  assumes "CHR '' '' \<in> set v" and "clean_value v = Inr y"
  shows "y \<in> set (split v)"
proof (cases "first_value_part (split v)")
  case None
  with assms show ?thesis
    by (cases "split v") (simp_all add: clean_value_def)
next
  case (Some part)
  with assms have "y = part" by (simp add: clean_value_def)
  with Some show ?thesis by (simp add: first_value_part_mem)
qed

lemma clean_value_result: "clean_value v = Inr y \<Longrightarrow> CHR '' '' \<notin> set y"
proof (cases "CHR '' '' \<in> set v")
  case True
  assume "clean_value v = Inr y"
  with True have "y \<in> set (split v)" by (rule clean_value_in_parts)
  then show ?thesis by (rule token_no_space)
next
  case False
  assume "clean_value v = Inr y"
  with False show ?thesis by (simp add: clean_value_def)
qed




section \<open>Lemmas about the per-view extraction\<close>




lemma extract_view_ceiling:
  "extract_products_from_current_view (Some m) ps (dat, ids) = Inr (dat', ids')
     \<Longrightarrow> m \<noteq> 0 \<Longrightarrow> int (length dat') \<le> max (int (length dat)) m"
proof (induction ps arbitrary: dat ids)
  case Nil
  then show ?case by simp
next
  case (Cons p ps)
  show ?case
  proof (cases "id_field p \<notin> ids \<and> under_ceiling (Some m) (length dat)")
    case True
    with Cons.prems obtain p' where
      rest: "extract_products_from_current_view (Some m) ps (dat @ [p'], insert (id_field p') ids) = Inr (dat', ids')"
      by (auto split: sum.splits)
    from True Cons.prems(2) have "int (length dat) < m" by (simp add: under_ceiling_def)
    with Cons.IH [OF rest Cons.prems(2)] show ?thesis by simp
  next
    case False
    with Cons.prems have "extract_products_from_current_view (Some m) ps (dat, ids) = Inr (dat', ids')"
      by auto
    from Cons.IH [OF this Cons.prems(2)] show ?thesis .
  qed
qed

lemma extract_view_seen:
  "\<forall>p\<in>set ps. id_field p \<in> ids
     \<Longrightarrow> extract_products_from_current_view mp ps (dat, ids) = Inr (dat, ids)"
  by (induction ps) simp_all

section \<open>Lemmas about the pagination loop\<close>

text \<open>The four ways through the loop body, with the state each of them leaves.\<close>

lemma loop_body_cases:
  obtains
    (at_limit) "limit_reached mp (length (data st))" "loop_body mp v st = Break st"
  | (raised) e where "\<not> limit_reached mp (length (data st))"
      "extract_products_from_current_view mp (products v) (data st, extracted_ids st) = Inl e"
      "loop_body mp v st = Raise e"
  | (now_at_limit) dat ids st' where "\<not> limit_reached mp (length (data st))"
      "extract_products_from_current_view mp (products v) (data st, extracted_ids st) = Inr (dat, ids)"
      "limit_reached mp (length dat)"
      "loop_body mp v st = Break st'"
      "data st' = dat" "extracted_ids st' = ids"
      "no_new_items_count st' = (if length dat = length (data st) then no_new_items_count st + 1 else 0)"
      "scroll_attempts st' = scroll_attempts st" "last_height st' = last_height st"
  | (continue) dat ids st' where "\<not> limit_reached mp (length (data st))"
      "extract_products_from_current_view mp (products v) (data st, extracted_ids st) = Inr (dat, ids)"
      "\<not> limit_reached mp (length dat)"
      "loop_body mp v st = Next st'"
      "data st' = dat" "extracted_ids st' = ids"
      "no_new_items_count st' = (if length dat = length (data st) then no_new_items_count st + 1 else 0)"
      "scroll_attempts st' = (if scroll_height v = last_height st then scroll_attempts st + 1 else 0)"
      "last_height st' = scroll_height v"
proof (cases "limit_reached mp (length (data st))")
  case True
  then have "loop_body mp v st = Break st" by (simp add: loop_body_def)
  with True show ?thesis by (rule at_limit)
next
  case False
  note nl = this
  show ?thesis
  proof (cases "extract_products_from_current_view mp (products v) (data st, extracted_ids st)")
    case (Inl e)
    with nl have "loop_body mp v st = Raise e" by (simp add: loop_body_def)
    with nl Inl show ?thesis by (rule raised)
  next
    case (Inr res)
    obtain dat ids where res: "res = (dat, ids)" by (cases res)
    note ex = Inr [unfolded res]
    define st1 where "st1 = st\<lparr>data := dat, extracted_ids := ids,
             no_new_items_count := (if length dat = length (data st) then no_new_items_count st + 1 else 0)\<rparr>"
    show ?thesis
    proof (cases "limit_reached mp (length dat)")
      case True
      with nl ex have "loop_body mp v st = Break st1"
        by (simp add: loop_body_def Let_def st1_def)
      with nl ex True show ?thesis
        by (rule now_at_limit) (simp_all add: st1_def)
    next
      case False
      note nl2 = this
      show ?thesis
      proof (cases "scroll_height v = last_height st")
        case True
        with nl nl2 ex have "loop_body mp v st = Next (st1\<lparr>scroll_attempts := scroll_attempts st + 1\<rparr>)"
          by (simp add: loop_body_def Let_def st1_def)
        with nl ex nl2 show ?thesis
          by (rule continue) (simp_all add: st1_def True)
      next
        case False
        with nl nl2 ex have "loop_body mp v st = Next (st1\<lparr>scroll_attempts := 0, last_height := scroll_height v\<rparr>)"
          by (simp add: loop_body_def Let_def st1_def)
        with nl ex nl2 show ?thesis
          by (rule continue) (simp_all add: st1_def False)
      qed
    qed
  qed
qed

text \<open>
  Invariants of the loop: the ceiling, the exceptions it can propagate, the terminal state
  it stops in, and the number of iterations a ceiling allows.
\<close>

lemma scroll_loop_ceiling:
  "scroll_loop n (Some m) vs st = Some (Inr (ex, st')) \<Longrightarrow> m \<noteq> 0
     \<Longrightarrow> int (length (data st')) \<le> max (int (length (data st))) m"
proof (induction n arbitrary: vs st)
  case 0
  then show ?case by (simp split: if_splits)
next
  case (Suc n)
  show ?case
  proof (cases "loop_condition st")
    case False
    with Suc.prems show ?thesis by simp
  next
    case True
    show ?thesis
    proof (cases rule: loop_body_cases [of "Some m" st "vs 0"])
      case at_limit
      with True Suc.prems show ?thesis by simp
    next
      case (raised e)
      with True Suc.prems show ?thesis by simp
    next
      case (now_at_limit dat ids st1)
      with True Suc.prems(1) have "st' = st1" by simp
      with now_at_limit(5) extract_view_ceiling [OF now_at_limit(2) Suc.prems(2)]
      show ?thesis by simp
    next
      case (continue dat ids st1)
      with True Suc.prems(1)
      have "scroll_loop n (Some m) (\<lambda>i. vs (Suc i)) st1 = Some (Inr (ex, st'))" by simp
      from Suc.IH [OF this Suc.prems(2)] continue(5)
        extract_view_ceiling [OF continue(2) Suc.prems(2)]
      show ?thesis by simp
    qed
  qed
qed


lemma terminal_states_condition:
  "\<not> loop_condition st \<Longrightarrow> terminal_states (ex, st) \<noteq> {}"
  by (auto simp: loop_condition_def terminal_states_def)

lemma terminal_states_break: "terminal_states (LimitBreak, st) \<noteq> {}"
  by (simp add: terminal_states_def)

lemma scroll_loop_terminal:
  "scroll_loop n mp vs st = Some (Inr x) \<Longrightarrow> terminal_states x \<noteq> {}"
proof (induction n arbitrary: vs st)
  case 0
  then have "\<not> loop_condition st" and "x = (ConditionFalse, st)"
    by (simp_all split: if_splits)
  then show ?case by (simp add: terminal_states_condition)
next
  case (Suc n)
  show ?case
  proof (cases "loop_condition st")
    case False
    with Suc.prems have "x = (ConditionFalse, st)" by simp
    with False show ?thesis by (simp add: terminal_states_condition)
  next
    case True
    show ?thesis
    proof (cases rule: loop_body_cases [of mp st "vs 0"])
      case at_limit
      with True Suc.prems have "x = (LimitBreak, st)" by simp
      then show ?thesis by (simp add: terminal_states_break)
    next
      case (raised e')
      with True Suc.prems show ?thesis by simp
    next
      case (now_at_limit dat ids st1)
      with True Suc.prems have "x = (LimitBreak, st1)" by simp
      then show ?thesis by (simp add: terminal_states_break)
    next
      case (continue dat ids st1)
      with True Suc.prems
      have "scroll_loop n mp (\<lambda>i. vs (Suc i)) st1 = Some (Inr x)" by simp
      then show ?thesis by (rule Suc.IH)
    qed
  qed
qed




section \<open>Batches of cards with present fields and different ids\<close>



lemma extract_view_origin:
  "extract_products_from_current_view mp ps (dat, ids) = Inr (dat', ids')
     \<Longrightarrow> r \<in> set dat' \<Longrightarrow> r \<in> set dat \<or> (\<exists>p\<in>set ps. clean_fields p = Inr r)"
proof (induction ps arbitrary: dat ids)
  case Nil
  then show ?case by simp
next
  case (Cons p ps)
  show ?case
  proof (cases "id_field p \<notin> ids \<and> under_ceiling mp (length dat)")
    case True
    with Cons.prems(1) obtain p' where p': "clean_fields p = Inr p'"
      and rest: "extract_products_from_current_view mp ps (dat @ [p'], insert (id_field p') ids) = Inr (dat', ids')"
      by (auto split: sum.splits)
    from Cons.IH [OF rest Cons.prems(2)] p' show ?thesis by auto
  next
    case False
    with Cons.prems(1) have "extract_products_from_current_view mp ps (dat, ids) = Inr (dat', ids')"
      by auto
    from Cons.IH [OF this Cons.prems(2)] show ?thesis by auto
  qed
qed




section \<open>The normalizer against its specification\<close>

lemma looks_like_value_spec: "looks_like_value tok = spec_qualifies tok"
  by (cases tok) (simp_all add: looks_like_value_def spec_qualifies_def startswith_def)

lemma first_value_part_filter:
  "first_value_part ps = (case filter spec_qualifies ps of [] \<Rightarrow> None | tok # _ \<Rightarrow> Some tok)"
  by (induction ps) (simp_all add: looks_like_value_spec)

lemma clean_value_tokens:
  assumes "CHR '' '' \<in> set raw" and "split raw \<noteq> []"
  shows "clean_value raw =
     Inr (case filter spec_qualifies (split raw) of tok # _ \<Rightarrow> tok | [] \<Rightarrow> hd (split raw))"
proof (cases "filter spec_qualifies (split raw)")
  case Nil
  then have "first_value_part (split raw) = None" by (simp add: first_value_part_filter)
  with assms Nil show ?thesis by (cases "split raw") (simp_all add: clean_value_def)
next
  case (Cons tok rest)
  then have "first_value_part (split raw) = Some tok" by (simp add: first_value_part_filter)
  with assms(1) Cons show ?thesis by (simp add: clean_value_def)
qed

lemma clean_fields_fields:
  assumes "clean_fields p = Inr p'"
  shows "clean_value (id_field p) = Inr (id_field p') \<and>
         clean_value (price p) = Inr (price p') \<and>
         clean_value (mass_kg p) = Inr (mass_kg p') \<and>
         clean_value (score p) = Inr (score p') \<and> name p' = name p"
proof -
  from assms obtain i where i: "clean_value (id_field p) = Inr i"
    by (cases "clean_value (id_field p)") (simp_all add: clean_fields_def)
  from assms i obtain pr where pr: "clean_value (price p) = Inr pr"
    by (cases "clean_value (price p)") (simp_all add: clean_fields_def)
  from assms i pr obtain m where m: "clean_value (mass_kg p) = Inr m"
    by (cases "clean_value (mass_kg p)") (simp_all add: clean_fields_def)
  from assms i pr m obtain s where s: "clean_value (score p) = Inr s"
    by (cases "clean_value (score p)") (simp_all add: clean_fields_def)
  from assms i pr m s have "p' = p\<lparr>id_field := i, price := pr, mass_kg := m, score := s\<rparr>"
    by (simp add: clean_fields_def)
  with i pr m s show ?thesis by simp
qed

lemmas clean_value_eval =
  clean_value_def split_def isspace_def looks_like_value_def isdigit_def startswith_def

lemma clean_value_42: "clean_value ''42 units'' = Inr ''42''"
  by (simp add: clean_value_eval)

lemma clean_value_price: "clean_value ''$19.99 USD'' = Inr ''$19.99''"
  by (simp add: clean_value_eval)

lemma clean_value_mass: "clean_value ''3.2 kg'' = Inr ''3.2''"
  by (simp add: clean_value_eval)

lemma clean_value_score: "clean_value ''8.7'' = Inr ''8.7''"
  by (simp add: clean_value_def)

lemma clean_fields_scenario_c: "clean_fields scenario_c_card = Inr scenario_c_record"
  by (simp add: clean_fields_def scenario_c_card_def scenario_c_record_def
      clean_value_42 clean_value_price clean_value_mass clean_value_score)

lemma clean_fields_plain:
  "CHR '' '' \<notin> set i \<Longrightarrow> clean_fields (plain_card i) = Inr (plain_card i)"
  by (simp add: clean_fields_def plain_card_def clean_value_def)

section \<open>Properties of the normalizer\<close>

text \<open>
  C10. \<^verbatim>\<open>_clean_value\<close> is not total: on every string that contains a space character and
  whose list of whitespace-separated tokens is empty, such as the string of one space, it
  raises \<^verbatim>\<open>IndexError\<close> instead of returning a string.
\<close>

theorem clean_value_raises_IndexError:
  "CHR '' '' \<in> set v \<Longrightarrow> split v = [] \<Longrightarrow> clean_value v = Inl IndexError"
  by (simp add: clean_value_def)

theorem clean_value_raises_IndexError_witness:
  "CHR '' '' \<in> set '' '' \<and> split '' '' = [] \<and> clean_value '' '' = Inl IndexError"
proof -
  have a: "CHR '' '' \<in> set '' ''" by simp
  have b: "split '' '' = []" by (simp add: split_def isspace_def)
  from a b clean_value_raises_IndexError [OF a b] show ?thesis by simp
qed

text \<open>
  Where \<^verbatim>\<open>_clean_value\<close> returns, its result is a fixed point: a returned token holds no
  space character. In terms of outcomes, a second call after the first has the outcome of
  the first, its string or its exception.
\<close>

lemma clean_value_idempotent_on_results:
  "clean_value x = Inr y \<Longrightarrow> clean_value y = Inr y"
  by (intro clean_value_fixed clean_value_result)

lemma clean_value_twice:
  "(case clean_value x of Inl e \<Rightarrow> Inl e | Inr y \<Rightarrow> clean_value y) = clean_value x"
proof (cases "clean_value x")
  case (Inl e)
  then show ?thesis by simp
next
  case (Inr y)
  then have "clean_value y = Inr y" by (rule clean_value_idempotent_on_results)
  with Inr show ?thesis by simp
qed

text \<open>
  C5. Normalization is idempotent on every input string:
  \<^verbatim>\<open>_clean_value(_clean_value(x)) == _clean_value(x)\<close>. The code does not keep this on the
  string of one space: \<^verbatim>\<open>_clean_value(" ")\<close> raises \<^verbatim>\<open>IndexError\<close>, and so does the nested
  call, so that the equation has no value there instead of holding.
\<close>

theorem clean_value_blank_not_idempotent:
  "clean_value '' '' = Inl IndexError \<and>
   (case clean_value '' '' of Inl e \<Rightarrow> Inl e | Inr y \<Rightarrow> clean_value y) = Inl IndexError \<and>
   (\<forall>y. clean_value '' '' \<noteq> Inr y)"
proof -
  have "clean_value '' '' = Inl IndexError"
    by (simp add: clean_value_def split_def isspace_def)
  then show ?thesis by simp
qed

theorem clean_value_blank_not_idempotent_witness:
  "\<exists>x. CHR '' '' \<in> set x \<and> clean_value x = Inl IndexError"
proof -
  from clean_value_blank_not_idempotent have "clean_value '' '' = Inl IndexError" by simp
  moreover have "CHR '' '' \<in> set '' ''" by simp
  ultimately show ?thesis by blast
qed

text \<open>
  C4, as amended. If \<open>raw\<close> contains a space character and has at least one token,
  \<^verbatim>\<open>_clean_value\<close> returns the first whitespace-separated token that contains a digit or
  starts with the dollar sign, or the first token if none qualifies; if \<open>raw\<close> contains no
  space character it is returned unchanged, whatever other whitespace it holds. It maps
  \<^verbatim>\<open>"42 units"\<close> to \<^verbatim>\<open>"42"\<close>, \<^verbatim>\<open>"$19.99 USD"\<close> to \<^verbatim>\<open>"$19.99"\<close>, \<^verbatim>\<open>"3.2 kg"\<close> to \<^verbatim>\<open>"3.2"\<close> and
  \<^verbatim>\<open>"8.7"\<close> to \<^verbatim>\<open>"8.7"\<close>, and the extraction routine stores every accepted record with its
  id, price, mass_kg and score normalized and its name unchanged.
\<close>

theorem clean_value_behaviour:
  "(CHR '' '' \<in> set raw \<longrightarrow> split raw \<noteq> [] \<longrightarrow>
      clean_value raw =
        Inr (case filter spec_qualifies (split raw) of tok # _ \<Rightarrow> tok | [] \<Rightarrow> hd (split raw))) \<and>
   (CHR '' '' \<notin> set raw \<longrightarrow> clean_value raw = Inr raw) \<and>
   clean_value ''42 units'' = Inr ''42'' \<and>
   clean_value ''$19.99 USD'' = Inr ''$19.99'' \<and>
   clean_value ''3.2 kg'' = Inr ''3.2'' \<and>
   clean_value ''8.7'' = Inr ''8.7'' \<and>
   (clean_fields p = Inr p' \<longrightarrow>
      clean_value (id_field p) = Inr (id_field p') \<and>
      clean_value (price p) = Inr (price p') \<and>
      clean_value (mass_kg p) = Inr (mass_kg p') \<and>
      clean_value (score p) = Inr (score p') \<and> name p' = name p) \<and>
   (extract_products_from_current_view mp ps (dat, ids) = Inr (dat', ids') \<longrightarrow> r \<in> set dat' \<longrightarrow>
      r \<in> set dat \<or> (\<exists>c\<in>set ps. clean_fields c = Inr r))"
proof (intro conjI impI)
  show "clean_value raw =
      Inr (case filter spec_qualifies (split raw) of tok # _ \<Rightarrow> tok | [] \<Rightarrow> hd (split raw))"
    if "CHR '' '' \<in> set raw" and "split raw \<noteq> []"
    using that by (rule clean_value_tokens)
  show "clean_value raw = Inr raw" if "CHR '' '' \<notin> set raw"
    using that by (rule clean_value_fixed)
  show "r \<in> set dat \<or> (\<exists>c\<in>set ps. clean_fields c = Inr r)"
    if "extract_products_from_current_view mp ps (dat, ids) = Inr (dat', ids')" and "r \<in> set dat'"
    using that by (rule extract_view_origin)
qed (simp_all add: clean_value_42 clean_value_price clean_value_mass clean_value_score
       clean_fields_fields)

theorem clean_value_behaviour_witness:
  "CHR '' '' \<in> set ''Mass: 3.2 kg'' \<and> split ''Mass: 3.2 kg'' \<noteq> [] \<and>
   clean_value ''Mass: 3.2 kg'' = Inr ''3.2'' \<and>
   CHR '' '' \<notin> set tab_separated \<and> clean_value tab_separated = Inr tab_separated \<and>
   clean_fields scenario_c_card = Inr scenario_c_record \<and>
   clean_value (id_field scenario_c_card) = Inr (id_field scenario_c_record) \<and>
   extract_products_from_current_view None [scenario_c_card] ([], {}) =
     Inr ([scenario_c_record], {''42''}) \<and>
   scenario_c_record \<in> set [scenario_c_record] \<and>
   (\<exists>c\<in>set [scenario_c_card]. clean_fields c = Inr scenario_c_record)"
proof -
  have a: "CHR '' '' \<in> set ''Mass: 3.2 kg''" by simp
  have b: "split ''Mass: 3.2 kg'' \<noteq> []" by (simp add: split_def isspace_def)
  have c: "CHR '' '' \<notin> set tab_separated" by (simp add: tab_separated_def)
  have d: "extract_products_from_current_view None [scenario_c_card] ([], {}) =
     Inr ([scenario_c_record], {''42''})"
    by (simp add: under_ceiling_def clean_fields_scenario_c)
       (simp add: scenario_c_card_def scenario_c_record_def)
  have e: "filter spec_qualifies (split ''Mass: 3.2 kg'') = [''3.2'']"
    by (simp add: split_def isspace_def spec_qualifies_def isdigit_def)
  from clean_value_behaviour [of "''Mass: 3.2 kg''" scenario_c_card scenario_c_record
      None "[scenario_c_card]" "[]" "{}" "[scenario_c_record]" "{''42''}" scenario_c_record]
    clean_value_behaviour [of tab_separated scenario_c_card scenario_c_record
      None "[scenario_c_card]" "[]" "{}" "[scenario_c_record]" "{''42''}" scenario_c_record]
    a b c d e clean_fields_scenario_c
  show ?thesis by simp
qed

text \<open>
  C4 as stated fails on a value whose only whitespace is not a space character: on
  \<^verbatim>\<open>"a\t1"\<close> the specified normalizer gives the token \<^verbatim>\<open>"1"\<close>, while \<^verbatim>\<open>_clean_value\<close> tests
  \<^verbatim>\<open>" " in value\<close> and returns the value unchanged.
\<close>

theorem clean_value_tab_counterexample:
  "list_ex isspace tab_separated \<and> split tab_separated = [''a'', ''1''] \<and>
   spec_clean tab_separated = Some ''1'' \<and>
   clean_value tab_separated = Inr tab_separated \<and> tab_separated \<noteq> ''1''"
  by (simp add: tab_separated_def spec_clean_def split_def isspace_def spec_qualifies_def
      isdigit_def clean_value_def)

section \<open>Lemmas about runs\<close>

subsection \<open>Evaluating the loop on concrete pages\<close>

lemmas loop_eval =
  loop_condition_def max_scroll_attempts_def max_no_new_items_def loop_body_def
  limit_reached_def under_ceiling_def initial_scroll_state_def Let_def

lemma clean_fields_plain_digit: "clean_fields (plain_card ''1'') = Inr (plain_card ''1'')"
  by (simp add: clean_fields_plain)

lemma run_static_scenario_c:
  "run 2 [] Map.empty None None (Some 2) (static_page [scenario_c_card]) =
     Some (Inr \<lparr>returned = [scenario_c_record, scenario_c_record],
                exported = [scenario_c_record, scenario_c_record],
                session_saved = False\<rparr>)"
  by (simp add: run_def truthy_def config_get_def extract_product_data_def static_page_def
      eval_nat_numeral loop_eval clean_fields_scenario_c)
     (simp add: scenario_c_card_def scenario_c_record_def)

lemma run_static_zero:
  "run 4 [] Map.empty None None (Some 0) (static_page [plain_card ''1'']) =
     Some (Inr \<lparr>returned = [plain_card ''1''], exported = [plain_card ''1''],
                session_saved = False\<rparr>)"
  by (simp add: run_def truthy_def config_get_def extract_product_data_def static_page_def
      eval_nat_numeral loop_eval clean_fields_plain_digit)

subsection \<open>From the run to the loop\<close>

lemma extract_product_data_result:
  assumes "extract_product_data fuel mp pg dat = Some (Inr dat')"
  shows "(\<not> grid_visible pg \<and> dat' = dat) \<or>
         (\<exists>ex st'. scroll_loop fuel mp (views pg) (initial_scroll_state dat (initial_height pg)) =
             Some (Inr (ex, st')) \<and> data st' = dat')"
proof (cases "grid_visible pg")
  case False
  with assms show ?thesis by (simp add: extract_product_data_def)
next
  case True
  with assms show ?thesis
    by (auto simp: extract_product_data_def split: option.splits sum.splits)
qed

lemma run_result:
  assumes "run fuel dat config username password mp pg = Some (Inr r)"
  shows "extract_product_data fuel mp pg dat = Some (Inr (returned r)) \<and> exported r = returned r"
  using assms
  by (auto simp: run_def Let_def split: if_splits option.splits sum.splits)

lemma extract_product_data_ceiling:
  assumes "extract_product_data fuel (Some m) pg dat = Some (Inr dat')" and "m \<noteq> 0"
  shows "int (length dat') \<le> max (int (length dat)) m"
proof -
  from extract_product_data_result [OF assms(1)] show ?thesis
  proof
    assume "\<not> grid_visible pg \<and> dat' = dat"
    then show ?thesis by simp
  next
    assume "\<exists>ex st'. scroll_loop fuel (Some m) (views pg)
        (initial_scroll_state dat (initial_height pg)) = Some (Inr (ex, st')) \<and> data st' = dat'"
    then obtain ex st' where
      loop: "scroll_loop fuel (Some m) (views pg) (initial_scroll_state dat (initial_height pg)) =
        Some (Inr (ex, st'))" and dat': "data st' = dat'" by blast
    from scroll_loop_ceiling [OF loop assms(2)] dat' show ?thesis
      by (simp add: initial_scroll_state_def)
  qed
qed

subsection \<open>A page that never stops growing\<close>



subsection \<open>Ids that normalization leaves unchanged\<close>

text \<open>
  The deduplication of the extraction routine works as long as no id contains a space
  character: then the id tested and the id stored coincide, and the ids of the collection
  stay pairwise different.
\<close>

lemma clean_fields_id:
  assumes "clean_fields p = Inr p'" and "CHR '' '' \<notin> set (id_field p)"
  shows "id_field p' = id_field p"
proof -
  from clean_fields_fields [OF assms(1)]
  have "clean_value (id_field p) = Inr (id_field p')" by simp
  with clean_value_fixed [OF assms(2)] show ?thesis by simp
qed

lemma extract_view_distinct:
  "extract_products_from_current_view mp ps (dat, ids) = Inr (dat', ids')
     \<Longrightarrow> \<forall>p\<in>set ps. CHR '' '' \<notin> set (id_field p)
     \<Longrightarrow> distinct (map id_field dat) \<Longrightarrow> id_field ` set dat \<subseteq> ids
     \<Longrightarrow> distinct (map id_field dat') \<and> id_field ` set dat' \<subseteq> ids'"
proof (induction ps arbitrary: dat ids)
  case Nil
  then show ?case by simp
next
  case (Cons p ps)
  from Cons.prems(2) have rest_ok: "\<forall>p\<in>set ps. CHR '' '' \<notin> set (id_field p)"
    and p_ok: "CHR '' '' \<notin> set (id_field p)" by simp_all
  show ?case
  proof (cases "id_field p \<notin> ids \<and> under_ceiling mp (length dat)")
    case True
    with Cons.prems(1) obtain p' where p': "clean_fields p = Inr p'"
      and rest: "extract_products_from_current_view mp ps (dat @ [p'], insert (id_field p') ids) =
        Inr (dat', ids')"
      by (auto split: sum.splits)
    from clean_fields_id [OF p' p_ok] have same: "id_field p' = id_field p" .
    from True Cons.prems(4) have "id_field p \<notin> id_field ` set dat" by blast
    with Cons.prems(3) same have d: "distinct (map id_field (dat @ [p']))" by simp
    from Cons.prems(4) have s: "id_field ` set (dat @ [p']) \<subseteq> insert (id_field p') ids" by auto
    from Cons.IH [OF rest rest_ok d s] show ?thesis .
  next
    case False
    with Cons.prems(1)
    have "extract_products_from_current_view mp ps (dat, ids) = Inr (dat', ids')" by auto
    from Cons.IH [OF this rest_ok Cons.prems(3,4)] show ?thesis .
  qed
qed

lemma scroll_loop_distinct:
  "scroll_loop n mp vs st = Some (Inr (ex, st'))
     \<Longrightarrow> \<forall>i. \<forall>p\<in>set (products (vs i)). CHR '' '' \<notin> set (id_field p)
     \<Longrightarrow> distinct (map id_field (data st)) \<Longrightarrow> id_field ` set (data st) \<subseteq> extracted_ids st
     \<Longrightarrow> distinct (map id_field (data st'))"
proof (induction n arbitrary: vs st)
  case 0
  then show ?case by (simp split: if_splits)
next
  case (Suc n)
  from Suc.prems(2) have now: "\<forall>p\<in>set (products (vs 0)). CHR '' '' \<notin> set (id_field p)"
    and later: "\<forall>i. \<forall>p\<in>set (products (vs (Suc i))). CHR '' '' \<notin> set (id_field p)"
    by simp_all
  show ?case
  proof (cases "loop_condition st")
    case False
    with Suc.prems(1,3) show ?thesis by simp
  next
    case True
    show ?thesis
    proof (cases rule: loop_body_cases [of mp st "vs 0"])
      case at_limit
      with True Suc.prems(1,3) show ?thesis by simp
    next
      case (raised e)
      with True Suc.prems(1) show ?thesis by simp
    next
      case (now_at_limit dat ids st1)
      with True Suc.prems(1) have "st' = st1" by simp
      with extract_view_distinct [OF now_at_limit(2) now Suc.prems(3,4)] now_at_limit(5)
      show ?thesis by simp
    next
      case (continue dat ids st1)
      with True Suc.prems(1)
      have loop: "scroll_loop n mp (\<lambda>i. vs (Suc i)) st1 = Some (Inr (ex, st'))" by simp
      from extract_view_distinct [OF continue(2) now Suc.prems(3,4)] continue(5,6)
      have "distinct (map id_field (data st1))" "id_field ` set (data st1) \<subseteq> extracted_ids st1"
        by simp_all
      from Suc.IH [OF loop later this] show ?thesis .
    qed
  qed
qed

lemma run_distinct_ids:
  assumes "run fuel [] config username password mp pg = Some (Inr r)"
    and "\<forall>i. \<forall>p\<in>set (products (views pg i)). CHR '' '' \<notin> set (id_field p)"
  shows "distinct (map id_field (returned r))"
proof -
  from run_result [OF assms(1)]
  have "extract_product_data fuel mp pg [] = Some (Inr (returned r))" by simp
  from extract_product_data_result [OF this] show ?thesis
  proof
    assume "\<not> grid_visible pg \<and> returned r = []"
    then show ?thesis by simp
  next
    assume "\<exists>ex st'. scroll_loop fuel mp (views pg) (initial_scroll_state [] (initial_height pg)) =
        Some (Inr (ex, st')) \<and> data st' = returned r"
    then obtain ex st' where
      loop: "scroll_loop fuel mp (views pg) (initial_scroll_state [] (initial_height pg)) =
        Some (Inr (ex, st'))" and r: "data st' = returned r" by blast
    from scroll_loop_distinct [OF loop assms(2)] r show ?thesis
      by (simp add: initial_scroll_state_def)
  qed
qed

section \<open>Properties of the accumulated collection\<close>

text \<open>
  C1. No two records of the final output share an id. The code does not keep this: the
  membership test reads the id as extracted while \<^verbatim>\<open>extracted_ids\<close> holds the ids as
  cleaned, so a card whose id changes under normalization is accepted each time it is
  seen. With a ceiling of 2 and a page that keeps showing the card of scenario C, the run
  returns and exports two records with the id \<^verbatim>\<open>"42"\<close>.
\<close>

theorem duplicate_ids_in_output:
  "run 2 [] Map.empty None None (Some 2) (static_page [scenario_c_card]) =
     Some (Inr \<lparr>returned = [scenario_c_record, scenario_c_record],
                exported = [scenario_c_record, scenario_c_record],
                session_saved = False\<rparr>) \<and>
   map id_field [scenario_c_record, scenario_c_record] = [''42'', ''42'']"
  by (simp add: run_static_scenario_c) (simp add: scenario_c_record_def)

theorem duplicate_ids_in_output_witness:
  "\<exists>r. run 2 [] Map.empty None None (Some 2) (static_page [scenario_c_card]) = Some (Inr r) \<and>
       \<not> distinct (map id_field (exported r))"
  using duplicate_ids_in_output by simp

text \<open>
  C2, as amended. For every positive ceiling and every run whose extractor holds at most
  that many records on entry (none after construction), the number of records of the
  final output, returned and exported, does not exceed the ceiling.
\<close>

theorem ceiling_respected:
  assumes "0 < m" and "int (length dat) \<le> m"
    and "run fuel dat config username password (Some m) pg = Some (Inr r)"
  shows "int (length (returned r)) \<le> m \<and> exported r = returned r"
proof -
  from run_result [OF assms(3)]
  have ex: "extract_product_data fuel (Some m) pg dat = Some (Inr (returned r))"
    and same: "exported r = returned r" by simp_all
  from assms(1) have "m \<noteq> 0" by simp
  from extract_product_data_ceiling [OF ex this] assms(2) same show ?thesis by simp
qed

theorem ceiling_respected_witness:
  "(0::int) < 2 \<and> int (length ([]::product list)) \<le> 2 \<and>
   run 1 [] Map.empty None None (Some 2)
     (static_page [plain_card ''1'', plain_card ''2'', plain_card ''3'']) =
     Some (Inr \<lparr>returned = [plain_card ''1'', plain_card ''2''],
                exported = [plain_card ''1'', plain_card ''2''], session_saved = False\<rparr>) \<and>
   int (length (returned \<lparr>returned = [plain_card ''1'', plain_card ''2''],
                exported = [plain_card ''1'', plain_card ''2''], session_saved = False\<rparr>)) \<le> 2"
proof -
  have a: "(0::int) < 2" by simp
  have b: "int (length ([]::product list)) \<le> 2" by simp
  have c: "run 1 [] Map.empty None None (Some 2)
     (static_page [plain_card ''1'', plain_card ''2'', plain_card ''3'']) =
     Some (Inr \<lparr>returned = [plain_card ''1'', plain_card ''2''],
                exported = [plain_card ''1'', plain_card ''2''], session_saved = False\<rparr>)"
    by (simp add: run_def truthy_def config_get_def extract_product_data_def static_page_def
        loop_eval clean_fields_plain)
       (simp add: plain_card_def)
  from ceiling_respected [OF a b c] a b c show ?thesis by simp
qed

text \<open>
  C2 as stated fails for the ceiling 0, which both tests of the code treat as no ceiling:
  on a page showing one card the run with \<^verbatim>\<open>max_products=0\<close> outputs one record.
\<close>

theorem ceiling_zero_counterexample:
  "run 4 [] Map.empty None None (Some 0) (static_page [plain_card ''1'']) =
     Some (Inr \<lparr>returned = [plain_card ''1''], exported = [plain_card ''1''],
                session_saved = False\<rparr>) \<and>
   \<not> int (length [plain_card ''1'']) \<le> 0"
  by (simp add: run_static_zero)

section \<open>Termination of the pagination loop\<close>




subsection \<open>One iteration on a batch without new ids\<close>

lemma loop_body_seen:
  assumes "\<not> limit_reached mp (length (data st))"
    and "\<forall>p\<in>set (products v). id_field p \<in> extracted_ids st"
    and "scroll_height v \<noteq> last_height st"
  shows "loop_body mp v st =
     Next (st\<lparr>no_new_items_count := no_new_items_count st + 1, scroll_attempts := 0,
              last_height := scroll_height v\<rparr>)"
proof -
  from assms(2)
  have "extract_products_from_current_view mp (products v) (data st, extracted_ids st) =
      Inr (data st, extracted_ids st)" by (rule extract_view_seen)
  with assms(1,3) show ?thesis by (simp add: loop_body_def)
qed

text \<open>
  Three consecutive batches all of whose ids are in \<^verbatim>\<open>extracted_ids\<close>, with a scroll
  height that strictly increases after each of the three scrolls, take a running loop
  below its ceiling from an empty-batch counter of 0 to the exit by its condition in the
  state Converged: the empty-batch counter is 3 and the no-growth counter, reset by each
  height increase, is 0. The collection is unchanged.
\<close>

lemma three_seen_batches_converge:
  assumes "no_new_items_count st = 0" and "scroll_attempts st < max_scroll_attempts"
    and "\<not> limit_reached mp (length (data st))"
    and "\<forall>p\<in>set (products (vs 0)). id_field p \<in> extracted_ids st"
    and "\<forall>p\<in>set (products (vs 1)). id_field p \<in> extracted_ids st"
    and "\<forall>p\<in>set (products (vs 2)). id_field p \<in> extracted_ids st"
    and "last_height st < scroll_height (vs 0)"
    and "scroll_height (vs 0) < scroll_height (vs 1)"
    and "scroll_height (vs 1) < scroll_height (vs 2)"
  shows "scroll_loop (3 + k) mp vs st =
           Some (Inr (ConditionFalse,
             st\<lparr>no_new_items_count := 3, scroll_attempts := 0,
                last_height := scroll_height (vs 2)\<rparr>)) \<and>
         terminal_states (ConditionFalse,
             st\<lparr>no_new_items_count := 3, scroll_attempts := 0,
                last_height := scroll_height (vs 2)\<rparr>) = {Converged}"
proof -
  define st1 where "st1 = st\<lparr>no_new_items_count := 1, scroll_attempts := 0,
      last_height := scroll_height (vs 0)\<rparr>"
  define st2 where "st2 = st\<lparr>no_new_items_count := 2, scroll_attempts := 0,
      last_height := scroll_height (vs 1)\<rparr>"
  define st3 where "st3 = st\<lparr>no_new_items_count := 3, scroll_attempts := 0,
      last_height := scroll_height (vs 2)\<rparr>"
  have c0: "loop_condition st" using assms(1,2)
    by (simp add: loop_condition_def max_no_new_items_def)
  have c1: "loop_condition st1"
    by (simp add: st1_def loop_condition_def max_no_new_items_def max_scroll_attempts_def)
  have c2: "loop_condition st2"
    by (simp add: st2_def loop_condition_def max_no_new_items_def max_scroll_attempts_def)
  have c3: "\<not> loop_condition st3"
    by (simp add: st3_def loop_condition_def max_no_new_items_def)
  have b0: "loop_body mp (vs 0) st = Next st1"
    using loop_body_seen [of mp st "vs 0"] assms(1,3,4,7) by (simp add: st1_def)
  have b1: "loop_body mp (vs 1) st1 = Next st2"
    using loop_body_seen [of mp st1 "vs 1"] assms(3,5,8) by (simp add: st1_def st2_def)
  have b2: "loop_body mp (vs 2) st2 = Next st3"
    using loop_body_seen [of mp st2 "vs 2"] assms(3,6,9) by (simp add: st2_def st3_def)
  have stop: "scroll_loop k mp (\<lambda>i. vs (Suc (Suc (Suc i)))) st3 = Some (Inr (ConditionFalse, st3))"
    using c3 by (cases k) simp_all
  have main: "scroll_loop (Suc (Suc (Suc k))) mp vs st = Some (Inr (ConditionFalse, st3))"
    using c0 c1 c2 b0 b1 b2 stop by (simp add: numeral_2_eq_2)
  have fuel: "3 + k = Suc (Suc (Suc k))" by simp
  have loop: "scroll_loop (3 + k) mp vs st = Some (Inr (ConditionFalse, st3))"
    by (simp only: fuel main)
  have state: "terminal_states (ConditionFalse, st3) = {Converged}"
    by (simp add: terminal_states_def st3_def max_no_new_items_def max_scroll_attempts_def)
  from loop state show ?thesis unfolding st3_def by (rule conjI)
qed

lemma three_seen_batches_converge_example:
  "scroll_loop 3 (Some 5) rising_views seen_state =
     Some (Inr (ConditionFalse,
       seen_state\<lparr>no_new_items_count := 3, scroll_attempts := 0, last_height := 902\<rparr>)) \<and>
   terminal_states (ConditionFalse,
       seen_state\<lparr>no_new_items_count := 3, scroll_attempts := 0, last_height := 902\<rparr>) =
     {Converged}"
proof -
  have a: "no_new_items_count seen_state = 0" by (simp add: seen_state_def)
  have b: "scroll_attempts seen_state < max_scroll_attempts"
    by (simp add: seen_state_def max_scroll_attempts_def)
  have c: "\<not> limit_reached (Some 5) (length (data seen_state))"
    by (simp add: seen_state_def limit_reached_def)
  have d: "\<forall>p\<in>set (products (rising_views i)). id_field p \<in> extracted_ids seen_state" for i
    by (simp add: rising_views_def seen_state_def plain_card_def)
  have e: "last_height seen_state < scroll_height (rising_views 0)"
    "scroll_height (rising_views 0) < scroll_height (rising_views 1)"
    "scroll_height (rising_views 1) < scroll_height (rising_views 2)"
    by (simp_all add: rising_views_def seen_state_def)
  have f: "scroll_height (rising_views 2) = 902" by (simp add: rising_views_def)
  from three_seen_batches_converge [OF a b c d d d e, of 0] f
  show ?thesis by simp
qed

section \<open>The scenarios of the pagination loop\<close>

text \<open>
  C6. When three consecutive batches yield no new unique id while the scroll height
  strictly increases after each of the scrolls, the loop stops in the state Converged.
  The code does not keep this when the id of a card changes under normalization: the card
  of scenario C, stored with the id \<^verbatim>\<open>"42"\<close> from the first batch, is the only card of the
  batches that follow, which therefore bring no new id, yet it passes the id test each
  time and is stored again. With the ceiling 5 on a page that grows from 900 to 903 the
  empty-batch counter never leaves 0, and the loop is left by its \<^verbatim>\<open>break\<close> in the state
  LimitReached with five records of id \<^verbatim>\<open>"42"\<close>, which the run returns and exports.
\<close>

theorem recurring_card_never_converges:
  "products (recurring_card_views 1) = products (recurring_card_views 0) \<and>
   products (recurring_card_views 2) = products (recurring_card_views 0) \<and>
   products (recurring_card_views 3) = products (recurring_card_views 0) \<and>
   scroll_height (recurring_card_views 0) < scroll_height (recurring_card_views 1) \<and>
   scroll_height (recurring_card_views 1) < scroll_height (recurring_card_views 2) \<and>
   scroll_height (recurring_card_views 2) < scroll_height (recurring_card_views 3) \<and>
   scroll_loop 5 (Some 5) recurring_card_views (initial_scroll_state [] 800) =
     Some (Inr (LimitBreak,
       \<lparr>data = [scenario_c_record, scenario_c_record, scenario_c_record, scenario_c_record,
                scenario_c_record],
        extracted_ids = {''42''}, last_height = 903, scroll_attempts = 0,
        no_new_items_count = 0\<rparr>)) \<and>
   terminal_states (LimitBreak,
       \<lparr>data = [scenario_c_record, scenario_c_record, scenario_c_record, scenario_c_record,
                scenario_c_record],
        extracted_ids = {''42''}, last_height = 903, scroll_attempts = 0,
        no_new_items_count = 0\<rparr>) = {LimitReached} \<and>
   run 5 [] Map.empty None None (Some 5) recurring_card_page =
     Some (Inr \<lparr>returned = [scenario_c_record, scenario_c_record, scenario_c_record,
                            scenario_c_record, scenario_c_record],
                exported = [scenario_c_record, scenario_c_record, scenario_c_record,
                            scenario_c_record, scenario_c_record],
                session_saved = False\<rparr>)"
proof -
  have loop: "scroll_loop 5 (Some 5) recurring_card_views (initial_scroll_state [] 800) =
     Some (Inr (LimitBreak,
       \<lparr>data = [scenario_c_record, scenario_c_record, scenario_c_record, scenario_c_record,
                scenario_c_record],
        extracted_ids = {''42''}, last_height = 903, scroll_attempts = 0,
        no_new_items_count = 0\<rparr>))"
    by (simp add: eval_nat_numeral recurring_card_views_def loop_eval clean_fields_scenario_c)
       (simp add: scenario_c_card_def scenario_c_record_def)
  have state: "terminal_states (LimitBreak,
       \<lparr>data = [scenario_c_record, scenario_c_record, scenario_c_record, scenario_c_record,
                scenario_c_record],
        extracted_ids = {''42''}, last_height = 903, scroll_attempts = 0,
        no_new_items_count = 0\<rparr>) = {LimitReached}"
    by (simp add: terminal_states_def max_no_new_items_def max_scroll_attempts_def)
  have run: "run 5 [] Map.empty None None (Some 5) recurring_card_page =
     Some (Inr \<lparr>returned = [scenario_c_record, scenario_c_record, scenario_c_record,
                            scenario_c_record, scenario_c_record],
                exported = [scenario_c_record, scenario_c_record, scenario_c_record,
                            scenario_c_record, scenario_c_record],
                session_saved = False\<rparr>)"
    using loop
    by (simp add: run_def truthy_def config_get_def extract_product_data_def
        recurring_card_page_def)
  have views: "products (recurring_card_views 1) = products (recurring_card_views 0)"
    "products (recurring_card_views 2) = products (recurring_card_views 0)"
    "products (recurring_card_views 3) = products (recurring_card_views 0)"
    "scroll_height (recurring_card_views 0) < scroll_height (recurring_card_views 1)"
    "scroll_height (recurring_card_views 1) < scroll_height (recurring_card_views 2)"
    "scroll_height (recurring_card_views 2) < scroll_height (recurring_card_views 3)"
    by (simp_all add: recurring_card_views_def)
  from views loop state run show ?thesis by (intro conjI)
qed

theorem recurring_card_never_converges_witness:
  "\<exists>ex st'. scroll_loop 5 (Some 5) recurring_card_views (initial_scroll_state [] 800) =
       Some (Inr (ex, st')) \<and>
     Converged \<notin> terminal_states (ex, st') \<and> no_new_items_count st' = 0 \<and>
     map id_field (data st') = [''42'', ''42'', ''42'', ''42'', ''42'']"
proof -
  let ?st = "\<lparr>data = [scenario_c_record, scenario_c_record, scenario_c_record, scenario_c_record,
                scenario_c_record],
        extracted_ids = {''42''}, last_height = 903, scroll_attempts = 0,
        no_new_items_count = 0\<rparr>"
  from recurring_card_never_converges
  have loop: "scroll_loop 5 (Some 5) recurring_card_views (initial_scroll_state [] 800) =
      Some (Inr (LimitBreak, ?st))"
    and state: "terminal_states (LimitBreak, ?st) = {LimitReached}" by simp_all
  have ids: "map id_field (data ?st) = [''42'', ''42'', ''42'', ''42'', ''42'']"
    by (simp add: scenario_c_record_def)
  from state have "Converged \<notin> terminal_states (LimitBreak, ?st)" by simp
  with loop ids show ?thesis by (intro exI [of _ LimitBreak] exI [of _ ?st]) simp
qed








section \<open>Errors of the run\<close>

text \<open>
  C8. When login is required and neither a username nor a password is available, neither
  from the explicit arguments nor from the configuration mapping, the run aborts with the
  \<^verbatim>\<open>ValueError\<close> for missing credentials, whatever the page would show afterwards: nothing is
  extracted and nothing is exported.
\<close>

theorem run_without_credentials_raises:
  assumes "login_required pg"
    and "\<not> truthy username" and "\<not> truthy password"
    and "\<not> truthy (config_get config ''username'' None)"
    and "\<not> truthy (config_get config ''password'' None)"
  shows "run fuel dat config username password max_products pg =
           Some (Inl (ValueError ''Login required but credentials not provided''))"
proof -
  from assms(2,4) have "\<not> truthy (config_get config ''username'' username)"
    by (cases "config ''username''") (simp_all add: config_get_def)
  with assms(1,2) show ?thesis by (simp add: run_def)
qed

theorem run_without_credentials_raises_witness:
  "run 10 [] Map.empty None (Some '''') (Some 2505)
     ((static_page [scenario_c_card])\<lparr>login_required := True\<rparr>) =
   Some (Inl (ValueError ''Login required but credentials not provided''))"
proof -
  have a: "login_required ((static_page [scenario_c_card])\<lparr>login_required := True\<rparr>)"
    by simp
  have b: "\<not> truthy None" "\<not> truthy (Some '''')" by (simp_all add: truthy_def)
  have c: "\<not> truthy (config_get Map.empty ''username'' None)"
    "\<not> truthy (config_get Map.empty ''password'' None)"
    by (simp_all add: truthy_def config_get_def)
  from run_without_credentials_raises [OF a b c] show ?thesis .
qed

text \<open>
  C9. When the product grid does not become visible within its timeout,
  \<^verbatim>\<open>_extract_product_data\<close> returns normally and leaves the accumulated collection as it
  was, empty or not; every run that got past the login (not required, or made with the
  credentials of the arguments or of the configuration and accepted) then exports that
  collection and returns it instead of failing.
\<close>

theorem grid_timeout_keeps_data:
  assumes "\<not> grid_visible pg"
    and "login_required pg \<longrightarrow>
           truthy (fst (completed_credentials config username password)) \<and>
           truthy (snd (completed_credentials config username password)) \<and>
           \<not> login_rejected pg"
  shows "extract_product_data fuel max_products pg dat = Some (Inr dat) \<and>
         run fuel dat config username password max_products pg =
           Some (Inr \<lparr>returned = dat, exported = dat, session_saved = login_required pg\<rparr>)"
proof -
  from assms(1) have ex: "extract_product_data fuel max_products pg dat = Some (Inr dat)"
    by (simp add: extract_product_data_def)
  show ?thesis
  proof (cases "login_required pg")
    case False
    with ex show ?thesis by (simp add: run_def Let_def)
  next
    case True
    note login = this
    show ?thesis
    proof (cases "\<not> truthy username \<or> \<not> truthy password")
      case True
      with login assms(2)
      have "truthy (config_get config ''username'' username)"
        and "truthy (config_get config ''password'' password)"
        and "\<not> login_rejected pg"
        by (simp_all add: completed_credentials_def)
      with True login ex show ?thesis by (simp add: run_def)
    next
      case False
      with login assms(2) have "\<not> login_rejected pg"
        by (simp add: completed_credentials_def)
      with False login ex show ?thesis by (simp add: run_def)
    qed
  qed
qed

theorem grid_timeout_keeps_data_witness:
  "extract_product_data 0 (Some 2505) login_page_without_grid [scenario_c_record] =
     Some (Inr [scenario_c_record]) \<and>
   run 0 [scenario_c_record] full_config None None (Some 2505) login_page_without_grid =
     Some (Inr \<lparr>returned = [scenario_c_record], exported = [scenario_c_record],
                session_saved = True\<rparr>) \<and>
   run 0 [] Map.empty None None (Some 2505) ((static_page [])\<lparr>grid_visible := False\<rparr>) =
     Some (Inr \<lparr>returned = [], exported = [], session_saved = False\<rparr>)"
proof -
  let ?pg = "(static_page [])\<lparr>grid_visible := False\<rparr>"
  have a: "\<not> grid_visible login_page_without_grid"
    by (simp add: login_page_without_grid_def)
  have b: "login_required login_page_without_grid \<longrightarrow>
      truthy (fst (completed_credentials full_config None None)) \<and>
      truthy (snd (completed_credentials full_config None None)) \<and>
      \<not> login_rejected login_page_without_grid"
    by (simp add: login_page_without_grid_def completed_credentials_def truthy_def
        config_get_def full_config_def)
  have c: "login_required login_page_without_grid = True"
    by (simp add: login_page_without_grid_def)
  have a': "\<not> grid_visible ?pg" by simp
  have b': "login_required ?pg \<longrightarrow>
      truthy (fst (completed_credentials Map.empty None None)) \<and>
      truthy (snd (completed_credentials Map.empty None None)) \<and> \<not> login_rejected ?pg"
    by (simp add: static_page_def)
  have c': "login_required ?pg = False" by (simp add: static_page_def)
  from grid_timeout_keeps_data [OF a b, of 0 "Some 2505" "[scenario_c_record]"]
    grid_timeout_keeps_data [OF a' b', of 0 "Some 2505" "[]"] c c'
  show ?thesis by simp
qed

end
